theory Spec2Isabelle
  imports Main
begin

section \<open>Data model\<close>

text \<open>
  The tree view of \<^verbatim>\<open>TreeModelManager\<close> and its reconciler \<^verbatim>\<open>TreeView\<close>.
  A \<^verbatim>\<open>TreeViewNode\<close> is the descriptor the data source sends; only the fields the
  tree code reads are kept (\<^verbatim>\<open>command\<close> is read by \<^verbatim>\<open>executeCommand\<close> alone).
  Optional fields are options: \<open>None\<close> is JavaScript's \<^verbatim>\<open>undefined\<close>.
\<close>

record TreeViewNode =
  viewId :: string
  nodeUri :: "string option"
  label :: string
  icon :: "string option"
  collapseState :: "string option"

text \<open>\<^verbatim>\<open>interface NodeView\<close>; its \<^verbatim>\<open>level\<close>, \<^verbatim>\<open>expandable\<close> and \<^verbatim>\<open>expanded\<close> carry the
  prefix \<open>view_\<close> because the class \<^verbatim>\<open>Node\<close> has members of the same names.\<close>

record NodeView =
  underlying :: TreeViewNode
  view_level :: nat
  view_expandable :: bool
  view_expanded :: bool

text \<open>
  \<^verbatim>\<open>interface TreeModelUpdate\<close>; the field \<^verbatim>\<open>length\<close> is \<open>length_upd\<close> here. The type of
  \<^verbatim>\<open>root\<close> is a parameter: the updates the nodes fire carry a \<^verbatim>\<open>NodeView\<close>, the update
  the reconciler rewrites for the hidden root carries \<^verbatim>\<open>payload[1]\<close>, which is
  \<^verbatim>\<open>undefined\<close> when the payload is too short.
\<close>

record 'r TreeModelUpdate_of =
  root :: 'r
  length_upd :: int
  payload :: "NodeView list"
  focusEvent :: bool

type_synonym TreeModelUpdate = "NodeView TreeModelUpdate_of"

text \<open>
  \<^verbatim>\<open>class Node\<close>. The member \<^verbatim>\<open>children\<close> is the memoised promise of the child nodes:
  \<open>None\<close> while it is \<^verbatim>\<open>undefined\<close>, \<open>Some cs\<close> once \<^verbatim>\<open>getChildren\<close> has stored the promise
  that resolves to \<open>cs\<close>.
\<close>

datatype Node = Node (viewNode: TreeViewNode) (level: nat) (expanded: bool)
  (children: "Node list option") (lastTouch: nat) (defunct: bool)

text \<open>
  What a node operation reads from outside the tree: the provider's answer to
  \<^verbatim>\<open>loadNodeChildren\<close> and the clock reading \<^verbatim>\<open>Date.now()\<close> of the operation. The
  provider answers every request; a request that fails is not part of the model.
\<close>

record world =
  loadNodeChildren :: "string option \<Rightarrow> TreeViewNode list"
  Date_now :: nat

text \<open>Assignments to the members of a node.\<close>

fun set_viewNode :: "TreeViewNode \<Rightarrow> Node \<Rightarrow> Node" where
  "set_viewNode v' (Node v l e c t d) = Node v' l e c t d"

fun set_expanded :: "bool \<Rightarrow> Node \<Rightarrow> Node" where
  "set_expanded e' (Node v l e c t d) = Node v l e' c t d"

fun set_children :: "Node list option \<Rightarrow> Node \<Rightarrow> Node" where
  "set_children c' (Node v l e c t d) = Node v l e c' t d"

fun set_lastTouch :: "nat \<Rightarrow> Node \<Rightarrow> Node" where
  "set_lastTouch t' (Node v l e c t d) = Node v l e c t' d"

fun set_defunct :: "bool \<Rightarrow> Node \<Rightarrow> Node" where
  "set_defunct d' (Node v l e c t d) = Node v l e c t d'"

section \<open>Node\<close>

text \<open>\<^verbatim>\<open>new Node(node, level, provider, emitter)\<close>: collapsed, no children promise, stamped
  with the clock, not defunct.\<close>

definition newNode :: "world \<Rightarrow> nat \<Rightarrow> TreeViewNode \<Rightarrow> Node" where
  "newNode w l v = Node v l False None (Date_now w) False"

definition expandable :: "Node \<Rightarrow> bool" where
  "expandable n = (collapseState (viewNode n) \<noteq> None)"

definition isExpanded :: "Node \<Rightarrow> bool" where
  "isExpanded n = expanded n"

definition makeView :: "Node \<Rightarrow> NodeView" where
  "makeView n = \<lparr>underlying = viewNode n, view_level = level n,
     view_expandable = expandable n, view_expanded = isExpanded n\<rparr>"

text \<open>
  \<^verbatim>\<open>getChildren\<close>: the list the promise resolves to is \<open>kids\<close> (the stored list, or fresh
  nodes one level down made from the provider's answer); the call stores the promise.
  There is no test of \<^verbatim>\<open>defunct\<close>.
\<close>

definition kids :: "world \<Rightarrow> Node \<Rightarrow> Node list" where
  "kids w n = (case children n of
      None \<Rightarrow> map (newNode w (level n + 1)) (loadNodeChildren w (nodeUri (viewNode n)))
    | Some cs \<Rightarrow> cs)"

definition getChildren :: "world \<Rightarrow> Node \<Rightarrow> Node list \<times> Node" where
  "getChildren w n = (kids w n, set_children (Some (kids w n)) n)"

text \<open>A measure for the traversals: they enter the children of expanded nodes only, and
  nodes made by \<open>newNode\<close> are collapsed.\<close>

fun weight :: "Node \<Rightarrow> nat" where
  "weight (Node v l e c t d) =
     (if e then 1 else 0) +
     2 * (1 + (case c of None \<Rightarrow> 0 | Some cs \<Rightarrow> sum_list (map weight cs)))"

lemma weight_mem: "c \<in> set cs \<Longrightarrow> weight c \<le> sum_list (map weight cs)"
  by (induction cs) auto

lemma weight_kids: "expanded n \<Longrightarrow> c \<in> set (kids w n) \<Longrightarrow> weight c < weight n"
proof (cases n)
  case (Node v l e ch t d)
  assume e: "expanded n" and c: "c \<in> set (kids w n)"
  show ?thesis
  proof (cases ch)
    case None
    with Node e c show ?thesis by (auto simp: kids_def newNode_def)
  next
    case (Some cs)
    with Node c have "c \<in> set cs" by (simp add: kids_def)
    from weight_mem[OF this] Node Some show ?thesis by simp
  qed
qed

lemma weight_set_lastTouch [simp]: "weight (set_lastTouch t n) = weight n"
  by (cases n) simp

lemma weight_set_defunct [simp]: "weight (set_defunct b n) = weight n"
  by (cases n) simp

lemma sel_set_lastTouch [simp]:
  "viewNode (set_lastTouch t n) = viewNode n" "level (set_lastTouch t n) = level n"
  "expanded (set_lastTouch t n) = expanded n" "children (set_lastTouch t n) = children n"
  "lastTouch (set_lastTouch t n) = t" "defunct (set_lastTouch t n) = defunct n"
  by (cases n; simp)+

lemma sel_set_expanded [simp]:
  "viewNode (set_expanded b n) = viewNode n" "level (set_expanded b n) = level n"
  "expanded (set_expanded b n) = b" "children (set_expanded b n) = children n"
  "lastTouch (set_expanded b n) = lastTouch n" "defunct (set_expanded b n) = defunct n"
  by (cases n; simp)+

lemma sel_set_children [simp]:
  "viewNode (set_children c n) = viewNode n" "level (set_children c n) = level n"
  "expanded (set_children c n) = expanded n" "children (set_children c n) = c"
  "lastTouch (set_children c n) = lastTouch n" "defunct (set_children c n) = defunct n"
  by (cases n; simp)+

lemma sel_set_defunct [simp]:
  "viewNode (set_defunct b n) = viewNode n" "level (set_defunct b n) = level n"
  "expanded (set_defunct b n) = expanded n" "children (set_defunct b n) = children n"
  "lastTouch (set_defunct b n) = lastTouch n" "defunct (set_defunct b n) = b"
  by (cases n; simp)+

lemma sel_set_viewNode [simp]:
  "viewNode (set_viewNode v n) = v" "level (set_viewNode v n) = level n"
  "expanded (set_viewNode v n) = expanded n" "children (set_viewNode v n) = children n"
  "lastTouch (set_viewNode v n) = lastTouch n" "defunct (set_viewNode v n) = defunct n"
  by (cases n; simp)+

lemma kids_set_lastTouch [simp]: "kids w (set_lastTouch t n) = kids w n"
  by (simp add: kids_def split: option.split)

lemma kids_set_expanded [simp]: "kids w (set_expanded b n) = kids w n"
  by (simp add: kids_def split: option.split)

lemma kids_set_defunct [simp]: "kids w (set_defunct b n) = kids w n"
  by (simp add: kids_def split: option.split)

lemma kids_set_children_Some [simp]: "kids w (set_children (Some cs) n) = cs"
  by (simp add: kids_def)

text \<open>
  The traversals below read the children through \<^verbatim>\<open>getChildren\<close>. They are given as
  functions of the tree they read: what they return is computed from \<open>kids\<close>, and storing the
  promise on the way changes none of their results (\<open>height_getChildren\<close>,
  \<open>collectVisibleNodes_getChildren\<close>). The operations that write members (\<^verbatim>\<open>touch\<close>,
  \<^verbatim>\<open>markAsDefunct\<close>, \<^verbatim>\<open>expand\<close>, \<^verbatim>\<open>collapse\<close>, \<^verbatim>\<open>refreshSubtree\<close>) return the node
  afterwards.
\<close>

text \<open>\<^verbatim>\<open>height\<close>: \<^verbatim>\<open>heights.reduce((h1, h2) => h1 + h2, 1)\<close> over the children's heights when
  the node is expanded, 1 otherwise. The node has no member that stores a height.\<close>

function height :: "world \<Rightarrow> Node \<Rightarrow> nat" where
  "height w n =
     (if isExpanded n then foldl (\<lambda>h1 h2. h1 + h2) 1 (map (height w) (kids w n)) else 1)"
  by pat_completeness auto
termination
  by (relation "measure (\<lambda>(w, n). weight n)") (auto simp: weight_kids isExpanded_def)

declare height.simps [simp del]

text \<open>\<^verbatim>\<open>collectVisibleNodes\<close> and its inner \<^verbatim>\<open>collectInternal\<close>: the views of the
  subtree in pre-order, entering the children of expanded nodes.\<close>

function collectInternal :: "world \<Rightarrow> NodeView list \<Rightarrow> Node \<Rightarrow> NodeView list" where
  "collectInternal w acc node =
     (let newAcc = acc @ [makeView node] in
      if isExpanded node
      then foldl (\<lambda>z child. collectInternal w z child) newAcc (kids w node)
      else newAcc)"
  by pat_completeness auto
termination
  by (relation "measure (\<lambda>(w, acc, n). weight n)") (auto simp: weight_kids isExpanded_def)

declare collectInternal.simps [simp del]

definition collectVisibleNodes :: "world \<Rightarrow> Node \<Rightarrow> NodeView list" where
  "collectVisibleNodes w n = collectInternal w [] n"

text \<open>
  \<^verbatim>\<open>touch\<close>: stamps the node with the clock and, when it is expanded, its children
  (which stores the children promise); returns the stamp it wrote. The code reads the clock
  again for every child; here the children get the reading of the node. The checks of
  \<^verbatim>\<open>expand\<close> and \<^verbatim>\<open>collapse\<close> compare the node's own stamp only.
\<close>

function touch :: "world \<Rightarrow> Node \<Rightarrow> nat \<times> Node" where
  "touch w n =
     (let state = Date_now w; n1 = set_lastTouch state n in
      if isExpanded n1
      then (state, set_children (Some (map (\<lambda>child. snd (touch w child)) (kids w n1))) n1)
      else (state, n1))"
  by pat_completeness auto
termination
  by (relation "measure (\<lambda>(w, n). weight n)") (auto simp: weight_kids isExpanded_def)

declare touch.simps [simp del]

text \<open>\<^verbatim>\<open>markAsDefunct\<close>: retires the node and, when it is expanded, its children.\<close>

function markAsDefunct :: "world \<Rightarrow> Node \<Rightarrow> Node" where
  "markAsDefunct w n =
     (let n1 = set_defunct True n in
      if isExpanded n1
      then set_children (Some (map (markAsDefunct w) (kids w n1))) n1
      else n1)"
  by pat_completeness auto
termination
  by (relation "measure (\<lambda>(w, n). weight n)") (auto simp: weight_kids isExpanded_def)

declare markAsDefunct.simps [simp del]

text \<open>
  What a call of \<^verbatim>\<open>expand\<close> or \<^verbatim>\<open>collapse\<close> does, run without interleaving: the boolean
  it resolves to, the node afterwards, the updates passed to \<^verbatim>\<open>emitter.fire\<close> and the
  calls of \<^verbatim>\<open>provider.sendTreeNodeVisibilityNotification\<close> (node uri, collapsed flag).
\<close>

record op_result =
  returned :: bool
  node_after :: Node
  fired :: "TreeModelUpdate list"
  notified :: "(string option \<times> bool) list"

definition expand :: "world \<Rightarrow> Node \<Rightarrow> op_result" where
  "expand w n =
     (if defunct n then \<lparr>returned = False, node_after = n, fired = [], notified = []\<rparr>
      else
        let notes = [(nodeUri (viewNode n), False)];
            n1 = set_expanded True n;
            (curState, n2) = touch w n1;
            (cs, n3) = getChildren w n2;
            visibleNodes = collectVisibleNodes w n3
        in if curState = lastTouch n3 \<and> \<not> defunct n3
           then \<lparr>returned = True, node_after = n3,
                 fired = [\<lparr>root = makeView n3, length_upd = 1, payload = visibleNodes,
                           focusEvent = False\<rparr>],
                 notified = notes\<rparr>
           else \<lparr>returned = False, node_after = n3, fired = [], notified = notes\<rparr>)"

definition collapse :: "world \<Rightarrow> Node \<Rightarrow> op_result" where
  "collapse w n =
     (if defunct n then \<lparr>returned = False, node_after = n, fired = [], notified = []\<rparr>
      else
        let notes = [(nodeUri (viewNode n), True)];
            (curState, n1) = touch w n;
            h = height w n1;
            n2 = set_expanded False n1
        in if curState = lastTouch n2 \<and> \<not> defunct n2
           then \<lparr>returned = True, node_after = n2,
                 fired = [\<lparr>root = makeView n2, length_upd = int h, payload = [makeView n2],
                           focusEvent = False\<rparr>],
                 notified = notes\<rparr>
           else \<lparr>returned = False, node_after = n2, fired = [], notified = notes\<rparr>)"

subsection \<open>Facts about the traversals\<close>

lemma foldl_add_sum: "foldl (\<lambda>h1 h2. h1 + h2) (a::nat) xs = a + sum_list xs"
  by (induction xs arbitrary: a) auto

lemma height_sum:
  "height w n = (if isExpanded n then 1 + sum_list (map (height w) (kids w n)) else 1)"
  by (subst height.simps) (simp add: foldl_add_sum)

lemma touch_fst [simp]: "fst (touch w n) = Date_now w"
  by (subst touch.simps) (simp add: Let_def)

lemma touch_sel [simp]:
  "lastTouch (snd (touch w n)) = Date_now w"
  "defunct (snd (touch w n)) = defunct n"
  "expanded (snd (touch w n)) = expanded n"
  "viewNode (snd (touch w n)) = viewNode n"
  "level (snd (touch w n)) = level n"
  by (subst touch.simps, simp add: Let_def isExpanded_def)+

lemma touch_children:
  "children (snd (touch w n)) =
     (if expanded n then Some (map (\<lambda>c. snd (touch w c)) (kids w n)) else children n)"
  by (subst touch.simps) (simp add: Let_def isExpanded_def)

lemma kids_touch:
  "kids w (snd (touch w n)) =
     (if expanded n then map (\<lambda>c. snd (touch w c)) (kids w n) else kids w n)"
  by (simp add: kids_def touch_children split: option.split)

lemma height_touch [simp]: "height w (snd (touch w n)) = height w n"
proof (induction w n rule: height.induct)
  case (1 w n)
  show ?case
  proof (cases "expanded n")
    case True
    have "map (height w) (map (\<lambda>c. snd (touch w c)) (kids w n)) = map (height w) (kids w n)"
      using 1 True by (simp add: isExpanded_def)
    then show ?thesis
      using True
      by (simp only: height_sum[of w "snd (touch w n)"] height_sum[of w n] isExpanded_def
          kids_touch touch_sel if_True)
  next
    case False
    then show ?thesis
      by (simp add: height_sum[of w "snd (touch w n)"] height_sum[of w n] isExpanded_def)
  qed
qed

lemma makeView_touch [simp]: "makeView (snd (touch w n)) = makeView n"
  by (simp add: makeView_def expandable_def isExpanded_def)

lemma foldl_append_concat:
  "(\<And>a x. x \<in> set cs \<Longrightarrow> f a x = a @ g x) \<Longrightarrow> foldl f a cs = a @ concat (map g cs)"
  by (induction cs arbitrary: a) auto

lemma collectInternal_acc:
  "collectInternal w acc n = acc @ collectInternal w [] n"
proof (induction w acc n rule: collectInternal.induct)
  case (1 w acc node)
  show ?case
  proof (cases "isExpanded node")
    case True
    have step: "collectInternal w a x = a @ collectInternal w [] x"
      if "x \<in> set (kids w node)" for a x
      using "1.IH"[OF refl True that] .
    have "collectInternal w acc node
        = (acc @ [makeView node]) @ concat (map (collectInternal w []) (kids w node))"
      using True
      by (subst collectInternal.simps) (simp add: Let_def foldl_append_concat[OF step])
    moreover have "collectInternal w [] node
        = [makeView node] @ concat (map (collectInternal w []) (kids w node))"
      using True
      by (subst collectInternal.simps) (simp add: Let_def foldl_append_concat[OF step])
    ultimately show ?thesis by simp
  next
    case False
    then show ?thesis
      by (simp add: collectInternal.simps[of w acc node] collectInternal.simps[of w "[]" node])
  qed
qed

lemma collectVisibleNodes_unfold:
  "collectVisibleNodes w n =
     makeView n # (if isExpanded n then concat (map (collectVisibleNodes w) (kids w n)) else [])"
proof -
  have step: "collectInternal w a x = a @ collectVisibleNodes w x" for a x
    unfolding collectVisibleNodes_def by (rule collectInternal_acc)
  show ?thesis
    unfolding collectVisibleNodes_def
    by (subst collectInternal.simps)
       (simp add: Let_def foldl_append_concat[OF step] collectVisibleNodes_def)
qed

lemma length_collectVisibleNodes: "length (collectVisibleNodes w n) = height w n"
proof (induction w n rule: height.induct)
  case (1 w n)
  show ?case
  proof (cases "isExpanded n")
    case True
    have "map (\<lambda>c. length (collectVisibleNodes w c)) (kids w n) = map (height w) (kids w n)"
      using 1 True by simp
    then have "sum_list (map length (map (collectVisibleNodes w) (kids w n)))
        = sum_list (map (height w) (kids w n))"
      by (simp only: map_map o_def)
    then show ?thesis
      using True
      by (simp only: collectVisibleNodes_unfold[of w n] height_sum[of w n] length_concat
          if_True list.size add_Suc plus_1_eq_Suc)
  next
    case False
    then show ?thesis by (simp add: collectVisibleNodes_unfold[of w n] height_sum[of w n])
  qed
qed

lemma collectVisibleNodes_touch [simp]:
  "collectVisibleNodes w (snd (touch w n)) = collectVisibleNodes w n"
proof (induction w n rule: height.induct)
  case (1 w n)
  show ?case
  proof (cases "expanded n")
    case True
    have "map (collectVisibleNodes w) (map (\<lambda>c. snd (touch w c)) (kids w n))
        = map (collectVisibleNodes w) (kids w n)"
      using 1 True by (simp add: isExpanded_def)
    then show ?thesis
      using True
      by (simp only: collectVisibleNodes_unfold[of w "snd (touch w n)"]
          collectVisibleNodes_unfold[of w n] isExpanded_def kids_touch touch_sel if_True
          makeView_touch)
  next
    case False
    then show ?thesis
      by (simp add: collectVisibleNodes_unfold[of w "snd (touch w n)"]
          collectVisibleNodes_unfold[of w n] isExpanded_def)
  qed
qed


section \<open>Example tree\<close>

text \<open>The tree of the reconciliation example: the root's children are \<open>X\<close> (with children
  \<open>Y\<close> and \<open>Z\<close>) and \<open>W\<close>. \<open>example_root\<close> is the root as the constructor of
  \<^verbatim>\<open>TreeModel\<close> makes it; \<open>example_expanded\<close> is the root after \<^verbatim>\<open>rootNode.expand()\<close>.\<close>

definition descr :: "string \<Rightarrow> TreeViewNode" where
  "descr u = \<lparr>viewId = ''v'', nodeUri = Some u, label = u, icon = None,
     collapseState = Some ''collapsed''\<rparr>"

definition example_world :: world where
  "example_world = \<lparr>loadNodeChildren =
       (\<lambda>u. if u = None then [descr ''X'', descr ''W'']
            else if u = Some ''X'' then [descr ''Y'', descr ''Z''] else []),
     Date_now = 7\<rparr>"

definition example_root :: Node where
  "example_root =
     newNode example_world 0 \<lparr>viewId = ''v'', nodeUri = None, label = ''v'', icon = None,
       collapseState = None\<rparr>"

definition example_expanded :: Node where
  "example_expanded = node_after (expand example_world example_root)"

text \<open>Rows an update deletes minus rows it inserts.\<close>

definition row_delta :: "TreeModelUpdate \<Rightarrow> int" where
  "row_delta ev = length_upd ev - int (length (payload ev))"

section \<open>expand and collapse, run alone\<close>

lemma getChildren_keeps [simp]:
  "kids w (snd (getChildren w n)) = kids w n"
  "expanded (snd (getChildren w n)) = expanded n"
  "defunct (snd (getChildren w n)) = defunct n"
  "lastTouch (snd (getChildren w n)) = lastTouch n"
  "makeView (snd (getChildren w n)) = makeView n"
  by (simp_all add: getChildren_def makeView_def expandable_def isExpanded_def)

lemma height_getChildren [simp]: "height w (snd (getChildren w n)) = height w n"
  by (simp add: height_sum[of w "snd (getChildren w n)"] height_sum[of w n] isExpanded_def)

lemma collectVisibleNodes_getChildren [simp]:
  "collectVisibleNodes w (snd (getChildren w n)) = collectVisibleNodes w n"
  by (simp add: collectVisibleNodes_unfold[of w "snd (getChildren w n)"]
      collectVisibleNodes_unfold[of w n] isExpanded_def)

lemma expand_live:
  assumes "\<not> defunct n"
  shows "returned (expand w n)"
    and "fired (expand w n) =
       [\<lparr>root = makeView (set_expanded True n), length_upd = 1,
         payload = collectVisibleNodes w (set_expanded True n), focusEvent = False\<rparr>]"
    and "notified (expand w n) = [(nodeUri (viewNode n), False)]"
    and "expanded (node_after (expand w n))"
    and "\<not> defunct (node_after (expand w n))"
    and "height w (node_after (expand w n)) = height w (set_expanded True n)"
  using assms
  by (simp_all add: expand_def Let_def split_beta)

lemma collapse_live:
  assumes "\<not> defunct n"
  shows "returned (collapse w n)"
    and "fired (collapse w n) =
       [\<lparr>root = makeView (node_after (collapse w n)), length_upd = int (height w n),
         payload = [makeView (node_after (collapse w n))], focusEvent = False\<rparr>]"
    and "notified (collapse w n) = [(nodeUri (viewNode n), True)]"
    and "\<not> expanded (node_after (collapse w n))"
    and "makeView (node_after (collapse w n)) = makeView (set_expanded False n)"
    and "height w (node_after (collapse w n)) = 1"
  using assms
  by (simp_all add: collapse_def Let_def split_beta height_sum[of w "set_expanded _ _"] isExpanded_def
      makeView_def expandable_def)

lemma example_expanded_facts:
  "\<not> defunct example_expanded" "isExpanded example_expanded"
  by (simp_all add: example_expanded_def example_root_def newNode_def expand_live isExpanded_def)



lemma set_expanded_same: "expanded n = b \<Longrightarrow> set_expanded b n = n"
  by (cases n) auto

lemma example_kids_heights:
  "sum_list (map (height example_world) (kids example_world example_expanded)) = 2"
  by code_simp

section \<open>Claims about Node\<close>

text \<open>
  C7. \<^verbatim>\<open>height()\<close> is 1 for a collapsed node and 1 plus the sum of the heights of the
  resolved children for an expanded one. It is computed from the live state on each call:
  clearing the expansion flag makes it 1, setting the flag makes it the sum, and storing the
  children promise does not change it (the node keeps no height).
\<close>

theorem height_live_sum:
  "height w n = (if isExpanded n then 1 + sum_list (map (height w) (kids w n)) else 1)
   \<and> height w (set_expanded False n) = 1
   \<and> height w (set_expanded True n) = 1 + sum_list (map (height w) (kids w n))
   \<and> height w (snd (getChildren w n)) = height w n"
  by (simp add: height_sum[of w n] height_sum[of w "set_expanded _ n"] isExpanded_def)

theorem height_live_sum_witness:
  "height example_world example_expanded = 3
   \<and> height example_world (set_expanded False example_expanded) = 1"
  using height_live_sum[of example_world example_expanded] example_expanded_facts
    example_kids_heights
  by simp

text \<open>
  C4, as stated, fails: the root after a first \<^verbatim>\<open>expand()\<close> is expanded and not retired,
  and a second \<^verbatim>\<open>expand()\<close> fires one more update (replaced row count 1, payload the
  root, \<open>X\<close> and \<open>W\<close>).
\<close>

theorem expand_twice_counterexample:
  "\<not> defunct example_expanded \<and> isExpanded example_expanded
   \<and> map length_upd (fired (expand example_world example_expanded)) = [1]
   \<and> map (map (\<lambda>v. nodeUri (underlying v)) \<circ> payload)
        (fired (expand example_world example_expanded)) = [[None, Some ''X'', Some ''W'']]"
  by code_simp

text \<open>
  C4 (amended). \<^verbatim>\<open>expand()\<close> does not test the expansion flag: on a node that is not
  retired and already expanded it resolves to true and fires again one update, anchored at
  the node, with replaced row count 1 and the node's whole visible subtree as payload; the
  node stays expanded and its height is unchanged.
\<close>

theorem expand_again_emits:
  "\<not> defunct n \<Longrightarrow> isExpanded n \<Longrightarrow>
     returned (expand w n)
     \<and> fired (expand w n) =
         [\<lparr>root = makeView n, length_upd = 1, payload = collectVisibleNodes w n,
           focusEvent = False\<rparr>]
     \<and> isExpanded (node_after (expand w n))
     \<and> height w (node_after (expand w n)) = height w n"
  by (simp add: expand_live isExpanded_def set_expanded_same)

theorem expand_again_emits_witness:
  "\<not> defunct example_expanded \<and> isExpanded example_expanded
   \<and> returned (expand example_world example_expanded)
   \<and> length (fired (expand example_world example_expanded)) = 1"
  using expand_again_emits[OF example_expanded_facts, of example_world] example_expanded_facts
  by simp

text \<open>
  C6, as stated, fails for \<^verbatim>\<open>expand()\<close> on an expanded node: on the expanded example root
  the update deletes 1 row and inserts 3, while the subtree height stays 3.
\<close>

theorem expand_expanded_row_balance_counterexample:
  "\<not> defunct example_expanded
   \<and> map row_delta (fired (expand example_world example_expanded)) = [- 2]
   \<and> int (height example_world example_expanded)
       - int (height example_world (node_after (expand example_world example_expanded))) = 0"
  by code_simp

text \<open>
  C6 (amended). For a node that is not retired, \<^verbatim>\<open>collapse()\<close> succeeds and fires one
  update whose replaced row count is the height the subtree had when the call began, before
  the flag is cleared, and whose payload is the single row of the now collapsed node; rows
  deleted minus rows inserted equal the height before minus the height after. The same
  balance holds for \<^verbatim>\<open>expand()\<close> when the node was collapsed before the call.
\<close>

theorem collapse_row_balance:
  "\<not> defunct n \<Longrightarrow>
     returned (collapse w n)
     \<and> fired (collapse w n) =
         [\<lparr>root = makeView (set_expanded False n), length_upd = int (height w n),
           payload = [makeView (set_expanded False n)], focusEvent = False\<rparr>]
     \<and> \<not> isExpanded (node_after (collapse w n))
     \<and> map row_delta (fired (collapse w n)) =
         [int (height w n) - int (height w (node_after (collapse w n)))]
     \<and> (\<not> isExpanded n \<longrightarrow>
          map row_delta (fired (expand w n)) =
            [int (height w n) - int (height w (node_after (expand w n)))])"
  by (simp add: collapse_live expand_live row_delta_def isExpanded_def
      length_collectVisibleNodes height_sum[of w n])

theorem collapse_row_balance_witness:
  "\<not> defunct example_expanded
   \<and> map length_upd (fired (collapse example_world example_expanded)) = [3]
   \<and> map row_delta (fired (collapse example_world example_expanded)) = [2]
   \<and> \<not> isExpanded example_root
   \<and> map row_delta (fired (expand example_world example_root)) = [- 2]"
proof -
  have a: "\<not> defunct example_root" "\<not> isExpanded example_root"
    by (simp_all add: example_root_def newNode_def isExpanded_def)
  have h: "height example_world example_expanded = 3" "height example_world example_root = 1"
    "height example_world (node_after (collapse example_world example_expanded)) = 1"
    "height example_world (node_after (expand example_world example_root)) = 3"
    by code_simp+
  show ?thesis
    using collapse_row_balance[OF example_expanded_facts(1), of example_world]
      collapse_row_balance[OF a(1), of example_world] a example_expanded_facts h
    by (simp add: row_delta_def)
qed

text \<open>A retired child that was never opened: no children promise yet.\<close>

definition example_retired :: Node where
  "example_retired = Node (descr ''X'') 1 False None 0 True"

text \<open>
  C8, as stated, fails in its last part: \<^verbatim>\<open>getChildren()\<close> on a retired node without a
  children promise asks the provider and stores the new children (\<open>Y\<close> and \<open>Z\<close> here).
\<close>

theorem retired_getChildren_counterexample:
  "defunct example_retired \<and> children example_retired = None
   \<and> map (map (\<lambda>c. nodeUri (viewNode c))) (case children (snd (getChildren example_world example_retired)) of None \<Rightarrow> [] | Some cs \<Rightarrow> [cs])
        = [[Some ''Y'', Some ''Z'']]"
  by code_simp

text \<open>
  C8 (amended). On a retired node \<^verbatim>\<open>expand()\<close> and \<^verbatim>\<open>collapse()\<close> resolve to false, fire
  no update, send no notification and leave the node as it was (expansion flag and children
  promise included). \<^verbatim>\<open>getChildren()\<close> does not test the retired flag: called on a retired
  node whose children promise is undefined it stores the children made from the provider's
  answer.
\<close>

theorem retired_expand_collapse_fail:
  "defunct n \<Longrightarrow>
     expand w n = \<lparr>returned = False, node_after = n, fired = [], notified = []\<rparr>
     \<and> collapse w n = \<lparr>returned = False, node_after = n, fired = [], notified = []\<rparr>
     \<and> (children n = None \<longrightarrow>
          children (snd (getChildren w n)) =
            Some (map (newNode w (level n + 1)) (loadNodeChildren w (nodeUri (viewNode n)))))"
  by (simp add: expand_def collapse_def getChildren_def kids_def)

theorem retired_expand_collapse_fail_witness:
  "defunct example_retired
   \<and> \<not> returned (expand example_world example_retired)
   \<and> fired (collapse example_world example_retired) = []
   \<and> node_after (expand example_world example_retired) = example_retired
   \<and> children example_retired = None
   \<and> children (snd (getChildren example_world example_retired)) \<noteq> None"
  using retired_expand_collapse_fail[of example_retired example_world]
  by (simp add: example_retired_def)


section \<open>refreshSubtree\<close>

text \<open>A path of node uris from the refreshed node down to an open node.\<close>

type_synonym path = "string option list"

text \<open>\<^verbatim>\<open>findOpenNodes\<close>: the paths of the expanded nodes of the subtree, in pre-order.\<close>

function findOpenNodes :: "world \<Rightarrow> path list \<Rightarrow> path \<Rightarrow> Node \<Rightarrow> path list" where
  "findOpenNodes w acc curPath node =
     (if isExpanded node
      then foldl (\<lambda>z child. findOpenNodes w z (curPath @ [nodeUri (viewNode child)]) child)
             (acc @ [curPath]) (kids w node)
      else acc)"
  by pat_completeness auto
termination
  by (relation "measure (\<lambda>(w, acc, p, n). weight n)") (auto simp: weight_kids isExpanded_def)

declare findOpenNodes.simps [simp del]

text \<open>
  Modelled from the spec: \<^verbatim>\<open>groupBy\<close> of \<^verbatim>\<open>util/array\<close> is imported and not among the
  sources. It is taken as the grouping of a list by a key into a \<^verbatim>\<open>Map\<close>, read with
  \<^verbatim>\<open>get\<close>: the items with that key in their order, \<^verbatim>\<open>undefined\<close> when there is none (the
  spec: open paths are replayed "matching by identity at each level").
\<close>

definition groupBy :: "'a list \<Rightarrow> ('a \<Rightarrow> 'k) \<Rightarrow> 'k \<Rightarrow> 'a list option" where
  "groupBy xs f k = (let g = filter (\<lambda>x. f x = k) xs in if g = [] then None else Some g)"

lemma groupBy_paths_shrink:
  assumes "groupBy (filter (\<lambda>p. p \<noteq> []) openNodes) hd k = Some g"
  shows "sum_list (map length (map tl g)) < sum_list (map length openNodes)"
proof -
  have g: "g = filter (\<lambda>x. hd x = k) (filter (\<lambda>p. p \<noteq> []) openNodes)" "g \<noteq> []"
    using assms by (auto simp: groupBy_def Let_def split: if_splits)
  have ne: "\<forall>x \<in> set g. x \<noteq> []" using g(1) by auto
  have a: "sum_list (map length (map tl ys)) < sum_list (map length ys)"
    if "ys \<noteq> []" "\<forall>x \<in> set ys. x \<noteq> []" for ys :: "'b list list"
    using that
  proof (induction ys)
    case Nil
    then show ?case by simp
  next
    case (Cons y ys)
    then show ?case by (cases ys) (auto simp: less_Suc_eq_le Suc_le_eq)
  qed
  have b: "sum_list (map length (filter P ys)) \<le> sum_list (map length ys)" for P and ys :: "'b list list"
    by (induction ys) auto
  have "sum_list (map length g) \<le> sum_list (map length openNodes)"
    unfolding g(1) using b[of "\<lambda>x. hd x = k" "filter (\<lambda>p. p \<noteq> []) openNodes"] b[of "\<lambda>p. p \<noteq> []" openNodes]
    by linarith
  with a[OF g(2) ne] show ?thesis by linarith
qed

text \<open>\<^verbatim>\<open>reloadSubtree\<close>: loads the children and opens again those a path leads through.\<close>

function reloadSubtree :: "world \<Rightarrow> Node \<Rightarrow> path list \<Rightarrow> Node" where
  "reloadSubtree w node openNodes =
     (if openNodes \<noteq> [] then
        let children = kids w node;
            childToNodes = groupBy (filter (\<lambda>node. node \<noteq> []) openNodes) hd
        in set_children
             (Some (map (\<lambda>child.
                (case childToNodes (nodeUri (viewNode child)) of
                   None \<Rightarrow> child
                 | Some mbOpenNodes \<Rightarrow>
                     reloadSubtree w (set_expanded True child) (map tl mbOpenNodes)))
               children))
             node
      else node)"
  by pat_completeness auto
termination
  by (relation "measure (\<lambda>(w, n, ps). sum_list (map length ps))")
     (auto dest: groupBy_paths_shrink)

declare reloadSubtree.simps [simp del]

text \<open>
  \<^verbatim>\<open>refreshSubtree\<close>, run without interleaving: the node afterwards and the update fired.
  It retires the old children, forgets the children promise, reloads, and fires always;
  it never writes \<^verbatim>\<open>lastTouch\<close> or \<^verbatim>\<open>defunct\<close> of the node it is called on.
\<close>

definition refreshSubtree ::
  "world \<Rightarrow> TreeViewNode option \<Rightarrow> Node \<Rightarrow> Node \<times> TreeModelUpdate list" where
  "refreshSubtree w viewNode' n =
     (let h = height w n;
          n1 = (if isExpanded n
                then set_children (Some (map (markAsDefunct w) (kids w n))) n else n);
          openNodes = findOpenNodes w [] [] n1;
          n2 = set_children None n1;
          n3 = reloadSubtree w n2 openNodes;
          n4 = (case viewNode' of None \<Rightarrow> n3 | Some v \<Rightarrow> set_viewNode v n3);
          visibleNodes = collectVisibleNodes w n4
      in (n4, [\<lparr>root = makeView n4, length_upd = int h, payload = visibleNodes,
                  focusEvent = False\<rparr>]))"


section \<open>refreshSubtree invoked while expand waits\<close>

text \<open>
  The stages of \<^verbatim>\<open>refreshSubtree\<close>: the node after the old children are retired (l.110-113),
  after the children promise is forgotten (l.115), after the reload (l.116) and after the
  descriptor is replaced (l.117-119). The last one is the node \<open>refreshSubtree\<close> returns.
\<close>

definition refresh_states :: "world \<Rightarrow> TreeViewNode option \<Rightarrow> Node \<Rightarrow> Node list" where
  "refresh_states w viewNode' n =
     (let n1 = (if isExpanded n
                then set_children (Some (map (markAsDefunct w) (kids w n))) n else n);
          openNodes = findOpenNodes w [] [] n1;
          n2 = set_children None n1;
          n3 = reloadSubtree w n2 openNodes;
          n4 = (case viewNode' of None \<Rightarrow> n3 | Some v \<Rightarrow> set_viewNode v n3)
      in [n1, n2, n3, n4])"

lemma refreshSubtree_last_state:
  "fst (refreshSubtree w v n) = last (refresh_states w v n)"
  by (simp add: refreshSubtree_def refresh_states_def Let_def)

lemma reloadSubtree_keeps [simp]:
  "lastTouch (reloadSubtree w n ps) = lastTouch n"
  "defunct (reloadSubtree w n ps) = defunct n"
  by (subst reloadSubtree.simps, simp add: Let_def)+


text \<open>
  \<^verbatim>\<open>expand()\<close> cut where it waits for the provider. With no children promise stored yet,
  the first await that does not continue at once is the one inside \<^verbatim>\<open>touch\<close> (l.161):
  \<open>expand_await\<close> is the call up to there (the stamp taken, and the node with the flag set,
  the stamp written and the promise stored). \<open>expand_settled\<close> is the call from the settled
  promise on: the children are stamped (l.162), then l.54 and l.55, then the check.
  \<open>expand_check\<close> is l.56-61 on the node as it is then and the rows collected.
  \<open>expand_split\<close> shows the halves make up \<open>expand\<close>.
\<close>

definition expand_await :: "world \<Rightarrow> Node \<Rightarrow> nat \<times> Node" where
  "expand_await w n =
     (let n1 = set_expanded True n;
          state = Date_now w;
          n2 = set_lastTouch state n1;
          (cs, n3) = getChildren w n2
      in (state, n3))"



lemma set_children_twice [simp]: "set_children c (set_children c' n) = set_children c n"
  by (cases n) simp



lemma expand_await_sel [simp]:
  "fst (expand_await w n) = Date_now w"
  "lastTouch (snd (expand_await w n)) = Date_now w"
  "defunct (snd (expand_await w n)) = defunct n"
  "expanded (snd (expand_await w n)) = True"
  by (simp_all add: expand_await_def Let_def split_beta)







section \<open>TreeModel\<close>

text \<open>
  \<^verbatim>\<open>findNodeOffset\<close> and its inner \<^verbatim>\<open>findNodeOffsetInternal\<close>: a pre-order walk with the
  accumulator \<^verbatim>\<open>[count, found]\<close>; nodes are compared by \<^verbatim>\<open>nodeUri\<close>. The root node of the
  model is a parameter.
\<close>

function findNodeOffsetInternal :: "world \<Rightarrow> NodeView \<Rightarrow> nat \<times> bool \<Rightarrow> Node \<Rightarrow> nat \<times> bool" where
  "findNodeOffsetInternal w nodeView acc node =
     (if nodeUri (viewNode node) = nodeUri (underlying nodeView) \<or> snd acc
      then (fst acc, True)
      else if isExpanded node
      then foldl (\<lambda>z child. findNodeOffsetInternal w nodeView z child)
             (fst acc + 1, snd acc) (kids w node)
      else (fst acc + 1, snd acc))"
  by pat_completeness auto
termination
  by (relation "measure (\<lambda>(w, v, acc, n). weight n)") (auto simp: weight_kids isExpanded_def)

declare findNodeOffsetInternal.simps [simp del]

definition findNodeOffset :: "world \<Rightarrow> Node \<Rightarrow> NodeView \<Rightarrow> nat option" where
  "findNodeOffset w rootNode nodeView =
     (case findNodeOffsetInternal w nodeView (0, False) rootNode of
        (offset, found) \<Rightarrow> if found then Some offset else None)"

text \<open>
  \<^verbatim>\<open>findNodeWithOffsetInternal\<close>: the fold state is \<^verbatim>\<open>{height, result}\<close>. It reads the
  children of the node whether or not the node is expanded, and after descending into a
  child it goes on with \<^verbatim>\<open>height: 0\<close>. Offsets are the non-negative integers its callers
  pass (a cursor line plus one); the subtrahend never exceeds the offset.
\<close>

lemma weight_kids_expanded:
  "c \<in> set (kids w n) \<Longrightarrow> expanded c \<Longrightarrow> weight c < weight n"
proof (cases n)
  case (Node v l e ch t d)
  assume c: "c \<in> set (kids w n)" and e: "expanded c"
  show ?thesis
  proof (cases ch)
    case None
    with Node e c show ?thesis by (auto simp: kids_def newNode_def)
  next
    case (Some cs)
    with Node c have "c \<in> set cs" by (simp add: kids_def)
    from weight_mem[OF this] Node Some show ?thesis by simp
  qed
qed

lemma height_gt1_expanded: "1 < height w c \<Longrightarrow> expanded c"
  by (subst (asm) height.simps) (simp add: isExpanded_def split: if_splits)

function findNodeWithOffsetInternal :: "world \<Rightarrow> Node \<Rightarrow> nat \<Rightarrow> Node option" where
  "findNodeWithOffsetInternal w node offset =
     (if offset = 0 then Some node
      else snd (foldl
        (\<lambda>state child.
           if snd state \<noteq> None then state
           else let childHeight = height w child
                in if fst state + childHeight \<le> offset
                   then (fst state + childHeight, None)
                   else (0, findNodeWithOffsetInternal w child (offset - fst state)))
        (1, None) (kids w node)))"
  by pat_completeness auto
termination
proof (relation "(\<lambda>(w, n, off). off) <*mlex*> measure (\<lambda>(w, n, off). weight n)", goal_cases)
  case 1
  show ?case by (simp add: wf_mlex)
next
  case (2 w node offset state child childHeight)
  show ?case
  proof (cases "fst state = 0")
    case True
    with 2 have "1 < height w child" by simp
    then have "expanded child" by (rule height_gt1_expanded)
    with 2 have "weight child < weight node" by (simp add: weight_kids_expanded)
    with True show ?thesis by (simp add: mlex_iff)
  next
    case False
    with 2 show ?thesis by (simp add: mlex_iff)
  qed
qed

declare findNodeWithOffsetInternal.simps [simp del]

definition findNodeWithOffset :: "world \<Rightarrow> Node \<Rightarrow> nat \<Rightarrow> Node option" where
  "findNodeWithOffset w rootNode offset = findNodeWithOffsetInternal w rootNode offset"


subsection \<open>The visible projection, for the proofs\<close>

text \<open>The nodes behind the rows of \<^verbatim>\<open>collectVisibleNodes\<close>, in row order, and their uris.\<close>

function visibleNodeList :: "world \<Rightarrow> Node \<Rightarrow> Node list" where
  "visibleNodeList w n =
     n # (if isExpanded n then concat (map (visibleNodeList w) (kids w n)) else [])"
  by pat_completeness auto
termination
  by (relation "measure (\<lambda>(w, n). weight n)") (auto simp: weight_kids isExpanded_def)

declare visibleNodeList.simps [simp del]

lemma visibleNodeList_views: "map makeView (visibleNodeList w n) = collectVisibleNodes w n"
proof (induction w n rule: height.induct)
  case (1 w n)
  show ?case
  proof (cases "isExpanded n")
    case True
    have "map (\<lambda>c. map makeView (visibleNodeList w c)) (kids w n)
        = map (collectVisibleNodes w) (kids w n)"
      using 1 True by simp
    then have "map (map makeView) (map (visibleNodeList w) (kids w n))
        = map (collectVisibleNodes w) (kids w n)"
      by (simp only: map_map o_def)
    then show ?thesis
      using True
      by (simp only: visibleNodeList.simps[of w n] collectVisibleNodes_unfold[of w n]
          if_True list.map map_concat)
  next
    case False
    then show ?thesis
      by (simp add: visibleNodeList.simps[of w n] collectVisibleNodes_unfold[of w n])
  qed
qed

lemma length_visibleNodeList: "length (visibleNodeList w n) = height w n"
  using length_collectVisibleNodes[of w n] visibleNodeList_views[of w n]
  by (metis length_map)

definition uris :: "world \<Rightarrow> Node \<Rightarrow> string option list" where
  "uris w n = map (\<lambda>m. nodeUri (viewNode m)) (visibleNodeList w n)"

lemma uris_unfold:
  "uris w n = nodeUri (viewNode n) # (if isExpanded n then concat (map (uris w) (kids w n)) else [])"
  unfolding uris_def
  by (subst visibleNodeList.simps) (simp add: map_concat o_def)

lemma uris_views:
  "uris w n = map (\<lambda>v. nodeUri (underlying v)) (collectVisibleNodes w n)"
  unfolding uris_def visibleNodeList_views[symmetric]
  by (simp add: makeView_def)

lemma findNodeOffsetInternal_found [simp]:
  "findNodeOffsetInternal w v (a, True) n = (a, True)"
  by (subst findNodeOffsetInternal.simps) simp

lemma foldl_findNodeOffsetInternal_found [simp]:
  "foldl (\<lambda>z child. findNodeOffsetInternal w v z child) (a, True) cs = (a, True)"
  by (induction cs) auto

lemma foldl_findNodeOffsetInternal:
  assumes "\<And>c a. c \<in> set cs \<Longrightarrow>
     findNodeOffsetInternal w v (a, False) c =
       (a + length (takeWhile (\<lambda>u. u \<noteq> t) (us c)), t \<in> set (us c))"
  shows "foldl (\<lambda>z child. findNodeOffsetInternal w v z child) (a, False) cs =
       (a + length (takeWhile (\<lambda>u. u \<noteq> t) (concat (map us cs))), t \<in> set (concat (map us cs)))"
  using assms
proof (induction cs arbitrary: a)
  case Nil
  then show ?case by simp
next
  case (Cons c cs)
  have c: "findNodeOffsetInternal w v (a, False) c =
       (a + length (takeWhile (\<lambda>u. u \<noteq> t) (us c)), t \<in> set (us c))"
    using Cons.prems by simp
  show ?case
  proof (cases "t \<in> set (us c)")
    case True
    then have "takeWhile (\<lambda>u. u \<noteq> t) (us c @ concat (map us cs)) = takeWhile (\<lambda>u. u \<noteq> t) (us c)"
      by (intro takeWhile_append1[of t]) auto
    with True c show ?thesis by simp
  next
    case False
    then have tw: "takeWhile (\<lambda>u. u \<noteq> t) (us c @ concat (map us cs))
        = us c @ takeWhile (\<lambda>u. u \<noteq> t) (concat (map us cs))"
      by (intro takeWhile_append2) auto
    from False have all: "takeWhile (\<lambda>u. u \<noteq> t) (us c) = us c"
      by (auto simp: takeWhile_eq_all_conv)
    have "foldl (\<lambda>z child. findNodeOffsetInternal w v z child) (a + length (us c), False) cs =
       (a + length (us c) + length (takeWhile (\<lambda>u. u \<noteq> t) (concat (map us cs))),
        t \<in> set (concat (map us cs)))"
      using Cons.prems by (intro Cons.IH) simp
    with False c all tw show ?thesis by simp
  qed
qed

lemma findNodeOffsetInternal_char:
  "findNodeOffsetInternal w v (a, False) n =
     (a + length (takeWhile (\<lambda>u. u \<noteq> nodeUri (underlying v)) (uris w n)),
      nodeUri (underlying v) \<in> set (uris w n))"
proof (induction w n arbitrary: a rule: height.induct)
  case (1 w n)
  let ?t = "nodeUri (underlying v)"
  show ?case
  proof (cases "nodeUri (viewNode n) = ?t")
    case True
    then show ?thesis
      by (subst findNodeOffsetInternal.simps) (simp add: uris_unfold[of w n])
  next
    case ne: False
    show ?thesis
    proof (cases "isExpanded n")
      case True
      have kidsP: "\<And>c a. c \<in> set (kids w n) \<Longrightarrow>
         findNodeOffsetInternal w v (a, False) c =
           (a + length (takeWhile (\<lambda>u. u \<noteq> ?t) (uris w c)), ?t \<in> set (uris w c))"
        using 1 True by simp
      have "findNodeOffsetInternal w v (a, False) n =
          foldl (\<lambda>z child. findNodeOffsetInternal w v z child) (a + 1, False) (kids w n)"
        using ne True by (subst findNodeOffsetInternal.simps) simp
      also have "\<dots> = (a + 1 + length (takeWhile (\<lambda>u. u \<noteq> ?t) (concat (map (uris w) (kids w n)))),
           ?t \<in> set (concat (map (uris w) (kids w n))))"
        by (rule foldl_findNodeOffsetInternal[OF kidsP])
      finally show ?thesis
        using ne True by (simp add: uris_unfold[of w n])
    next
      case False
      then show ?thesis
        using ne by (subst findNodeOffsetInternal.simps) (simp add: uris_unfold[of w n])
    qed
  qed
qed

lemma findNodeOffset_char:
  "findNodeOffset w r v =
     (if nodeUri (underlying v) \<in> set (uris w r)
      then Some (length (takeWhile (\<lambda>u. u \<noteq> nodeUri (underlying v)) (uris w r)))
      else None)"
  by (simp add: findNodeOffset_def findNodeOffsetInternal_char)


lemma foldl_findNodeWithOffset_found:
  "foldl (\<lambda>state child.
           if snd state \<noteq> None then state
           else let childHeight = height w child
                in if fst state + childHeight \<le> offset
                   then (fst state + childHeight, None)
                   else (0, findNodeWithOffsetInternal w child (offset - fst state)))
        (x, Some r) cs = (x, Some r)"
  by (induction cs) auto

lemma foldl_findNodeWithOffset:
  assumes "\<And>c h. c \<in> set cs \<Longrightarrow> h \<le> offset \<Longrightarrow> offset < h + height w c \<Longrightarrow>
     findNodeWithOffsetInternal w c (offset - h) = Some (visibleNodeList w c ! (offset - h))"
    and "h \<le> offset"
  shows "foldl (\<lambda>state child.
           if snd state \<noteq> None then state
           else let childHeight = height w child
                in if fst state + childHeight \<le> offset
                   then (fst state + childHeight, None)
                   else (0, findNodeWithOffsetInternal w child (offset - fst state)))
        (h, None) cs =
      (if offset < h + sum_list (map (height w) cs)
       then (0, Some (concat (map (visibleNodeList w) cs) ! (offset - h)))
       else (h + sum_list (map (height w) cs), None))"
  using assms
proof (induction cs arbitrary: h)
  case Nil
  then show ?case by simp
next
  case (Cons c cs)
  show ?case
  proof (cases "h + height w c \<le> offset")
    case True
    have ih: "foldl (\<lambda>state child.
           if snd state \<noteq> None then state
           else let childHeight = height w child
                in if fst state + childHeight \<le> offset
                   then (fst state + childHeight, None)
                   else (0, findNodeWithOffsetInternal w child (offset - fst state)))
        (h + height w c, None) cs =
      (if offset < h + height w c + sum_list (map (height w) cs)
       then (0, Some (concat (map (visibleNodeList w) cs) ! (offset - (h + height w c))))
       else (h + height w c + sum_list (map (height w) cs), None))"
      using Cons.prems True by (intro Cons.IH) simp_all
    have ge: "\<not> offset - h < height w c" using True by linarith
    have nth: "(visibleNodeList w c @ concat (map (visibleNodeList w) cs)) ! (offset - h)
        = concat (map (visibleNodeList w) cs) ! (offset - (h + height w c))"
      using ge by (simp only: nth_append length_visibleNodeList if_False diff_diff_left)
    show ?thesis
      using True ih nth by (simp add: Let_def add.assoc del: not_None_eq)
  next
    case False
    then have lt: "offset < h + height w c" by simp
    have r: "findNodeWithOffsetInternal w c (offset - h) = Some (visibleNodeList w c ! (offset - h))"
      using Cons.prems(1)[of c h] Cons.prems(2) lt by simp
    have lt': "offset - h < height w c" using lt Cons.prems(2) by linarith
    have nth: "(visibleNodeList w c @ concat (map (visibleNodeList w) cs)) ! (offset - h)
        = visibleNodeList w c ! (offset - h)"
      using lt' by (simp only: nth_append length_visibleNodeList if_True)
    show ?thesis
      using False lt r nth by (simp add: Let_def foldl_findNodeWithOffset_found del: not_None_eq)
  qed
qed

lemma findNodeWithOffsetInternal_in_range:
  "offset < height w node \<Longrightarrow>
     findNodeWithOffsetInternal w node offset = Some (visibleNodeList w node ! offset)"
proof (induction w node offset rule: findNodeWithOffsetInternal.induct)
  case (1 w node offset)
  show ?case
  proof (cases "offset = 0")
    case True
    then show ?thesis
      by (subst findNodeWithOffsetInternal.simps) (simp add: visibleNodeList.simps[of w node])
  next
    case False
    with "1.prems" have ex: "isExpanded node"
      by (simp add: height_sum[of w node] split: if_splits)
    have kidsP: "\<And>c h. c \<in> set (kids w node) \<Longrightarrow> h \<le> offset \<Longrightarrow> offset < h + height w c \<Longrightarrow>
       findNodeWithOffsetInternal w c (offset - h) = Some (visibleNodeList w c ! (offset - h))"
    proof -
      fix c h assume c: "c \<in> set (kids w node)" and h: "h \<le> offset" and lt: "offset < h + height w c"
      have "offset - h < height w c" using h lt by simp
      then show "findNodeWithOffsetInternal w c (offset - h) = Some (visibleNodeList w c ! (offset - h))"
        using "1.IH"[where a="(h, None)" and x=c and xa="height w c"] False c lt by simp
    qed
    have one: "1 \<le> offset" using False by simp
    have "findNodeWithOffsetInternal w node offset =
        snd (if offset < 1 + sum_list (map (height w) (kids w node))
         then (0, Some (concat (map (visibleNodeList w) (kids w node)) ! (offset - 1)))
         else (1 + sum_list (map (height w) (kids w node)), None))"
      using False
      by (subst findNodeWithOffsetInternal.simps)
         (simp only: if_False foldl_findNodeWithOffset[OF kidsP one])
    then show ?thesis
      using "1.prems" ex False
      by (simp add: height_sum[of w node] visibleNodeList.simps[of w node] nth_Cons')
  qed
qed

lemma findNodeWithOffsetInternal_beyond:
  "offset \<noteq> 0 \<Longrightarrow> 1 + sum_list (map (height w) (kids w node)) \<le> offset \<Longrightarrow>
     findNodeWithOffsetInternal w node offset = None"
proof -
  assume nz: "offset \<noteq> 0" and ge: "1 + sum_list (map (height w) (kids w node)) \<le> offset"
  have kidsP: "\<And>c h. c \<in> set (kids w node) \<Longrightarrow> h \<le> offset \<Longrightarrow> offset < h + height w c \<Longrightarrow>
     findNodeWithOffsetInternal w c (offset - h) = Some (visibleNodeList w c ! (offset - h))"
    by (rule findNodeWithOffsetInternal_in_range) simp
  have one: "1 \<le> offset" using nz by simp
  show ?thesis
    using nz ge
    by (subst findNodeWithOffsetInternal.simps)
       (simp only: if_False foldl_findNodeWithOffset[OF kidsP one], simp)
qed


lemma first_occurrence:
  "t \<in> set xs \<Longrightarrow>
     length (takeWhile (\<lambda>u. u \<noteq> t) xs) < length xs
     \<and> xs ! length (takeWhile (\<lambda>u. u \<noteq> t) xs) = t"
  by (induction xs) auto

lemma before_first_occurrence:
  "i < length (takeWhile (\<lambda>u. u \<noteq> t) xs) \<Longrightarrow> xs ! i \<noteq> t"
proof (induction xs arbitrary: i)
  case Nil
  then show ?case by simp
next
  case (Cons x xs)
  then show ?case by (cases i) (auto split: if_splits)
qed

text \<open>A tree in which the identity \<open>W\<close> occurs twice: as a child of the expanded \<open>X\<close> and
  as a child of the root. Its rows are the root, \<open>X\<close>, \<open>W\<close>, \<open>Z\<close>, \<open>W\<close>.\<close>

definition example_twice :: Node where
  "example_twice =
     Node \<lparr>viewId = ''v'', nodeUri = None, label = ''v'', icon = None, collapseState = None\<rparr>
       0 True
       (Some [Node (descr ''X'') 1 True
                (Some [Node (descr ''W'') 2 False None 7 False,
                       Node (descr ''Z'') 2 False None 7 False])
                7 False,
              Node (descr ''W'') 1 False None 7 False])
       7 False"

definition example_view :: "string \<Rightarrow> NodeView" where
  "example_view u = \<lparr>underlying = descr u, view_level = 1, view_expandable = True,
     view_expanded = False\<rparr>"

text \<open>
  C5, as stated, fails in its second part: on the root as the model's constructor leaves it
  (collapsed, total height 1) offset 2 exceeds the height, and \<^verbatim>\<open>findNodeWithOffset\<close>
  returns the root's second child \<open>W\<close>.
\<close>

theorem findNodeWithOffset_collapsed_root_counterexample:
  "height example_world example_root = 1
   \<and> map_option (\<lambda>n. nodeUri (viewNode n)) (findNodeWithOffset example_world example_root 2)
       = Some (Some ''W'')"
  by code_simp

text \<open>
  C5 (amended). For every tree and every node view whose identity is among the rows of the
  current visible projection, \<^verbatim>\<open>findNodeOffset\<close> returns the offset of the first row with
  that identity, which is below the total height, and \<^verbatim>\<open>findNodeWithOffset\<close> of that
  offset returns the node of that row, a node of the same identity; \<^verbatim>\<open>findNodeOffset\<close>
  returns undefined when the identity is not in the projection; and, when the root is
  expanded, \<^verbatim>\<open>findNodeWithOffset\<close> is undefined for every offset that is at least the
  total height.
\<close>

theorem offset_round_trip:
  "(nodeUri (underlying v)
      \<in> set (map (\<lambda>r. nodeUri (underlying r)) (collectVisibleNodes w rootNode)) \<longrightarrow>
      (\<exists>off node. findNodeOffset w rootNode v = Some off \<and> off < height w rootNode
         \<and> nodeUri (underlying (collectVisibleNodes w rootNode ! off)) = nodeUri (underlying v)
         \<and> (\<forall>i<off. nodeUri (underlying (collectVisibleNodes w rootNode ! i))
                \<noteq> nodeUri (underlying v))
         \<and> findNodeWithOffset w rootNode off = Some node
         \<and> makeView node = collectVisibleNodes w rootNode ! off
         \<and> nodeUri (viewNode node) = nodeUri (underlying v)))
   \<and> (nodeUri (underlying v)
      \<notin> set (map (\<lambda>r. nodeUri (underlying r)) (collectVisibleNodes w rootNode)) \<longrightarrow>
      findNodeOffset w rootNode v = None)
   \<and> (isExpanded rootNode \<longrightarrow> height w rootNode \<le> offset \<longrightarrow>
      findNodeWithOffset w rootNode offset = None)"
proof (intro conjI impI)
  let ?t = "nodeUri (underlying v)"
  let ?off = "length (takeWhile (\<lambda>u. u \<noteq> ?t) (uris w rootNode))"
  let ?rows = "collectVisibleNodes w rootNode"
  assume "?t \<in> set (map (\<lambda>r. nodeUri (underlying r)) ?rows)"
  then have vis: "?t \<in> set (uris w rootNode)" by (simp add: uris_views)
  then have off: "findNodeOffset w rootNode v = Some ?off"
    by (simp add: findNodeOffset_char)
  have lt: "?off < height w rootNode" and at: "uris w rootNode ! ?off = ?t"
    using first_occurrence[OF vis] by (simp_all add: uris_def length_visibleNodeList)
  have len: "length ?rows = height w rootNode"
    by (rule length_collectVisibleNodes)
  have row_uri: "nodeUri (underlying (?rows ! i)) = uris w rootNode ! i"
    if "i < height w rootNode" for i
    using that len by (simp add: uris_views)
  have first: "nodeUri (underlying (?rows ! ?off)) = ?t"
    using row_uri[OF lt] at by simp
  have before: "\<forall>i<?off. nodeUri (underlying (?rows ! i)) \<noteq> ?t"
  proof (intro allI impI)
    fix i assume i: "i < ?off"
    then have "i < height w rootNode" using lt by simp
    then show "nodeUri (underlying (?rows ! i)) \<noteq> ?t"
      using before_first_occurrence[OF i] row_uri by simp
  qed
  have found: "findNodeWithOffset w rootNode ?off = Some (visibleNodeList w rootNode ! ?off)"
    unfolding findNodeWithOffset_def by (rule findNodeWithOffsetInternal_in_range[OF lt])
  have view: "makeView (visibleNodeList w rootNode ! ?off) = ?rows ! ?off"
    using lt by (simp add: visibleNodeList_views[symmetric] length_visibleNodeList)
  have same: "nodeUri (viewNode (visibleNodeList w rootNode ! ?off)) = ?t"
    using at lt by (simp add: uris_def length_visibleNodeList)
  have all: "findNodeOffset w rootNode v = Some ?off \<and> ?off < height w rootNode
         \<and> nodeUri (underlying (?rows ! ?off)) = nodeUri (underlying v)
         \<and> (\<forall>i<?off. nodeUri (underlying (?rows ! i)) \<noteq> nodeUri (underlying v))
         \<and> findNodeWithOffset w rootNode ?off = Some (visibleNodeList w rootNode ! ?off)
         \<and> makeView (visibleNodeList w rootNode ! ?off) = ?rows ! ?off
         \<and> nodeUri (viewNode (visibleNodeList w rootNode ! ?off)) = nodeUri (underlying v)"
    by (intro conjI) (rule off lt first before found view same)+
  show "\<exists>off node. findNodeOffset w rootNode v = Some off \<and> off < height w rootNode
         \<and> nodeUri (underlying (?rows ! off)) = nodeUri (underlying v)
         \<and> (\<forall>i<off. nodeUri (underlying (?rows ! i)) \<noteq> nodeUri (underlying v))
         \<and> findNodeWithOffset w rootNode off = Some node
         \<and> makeView node = ?rows ! off
         \<and> nodeUri (viewNode node) = nodeUri (underlying v)"
    by (rule exI[where x="?off"], rule exI[where x="visibleNodeList w rootNode ! ?off"])
       (rule all)
next
  assume "nodeUri (underlying v)
      \<notin> set (map (\<lambda>r. nodeUri (underlying r)) (collectVisibleNodes w rootNode))"
  then have "nodeUri (underlying v) \<notin> set (uris w rootNode)" by (simp add: uris_views)
  then show "findNodeOffset w rootNode v = None"
    by (simp add: findNodeOffset_char)
next
  assume ex: "isExpanded rootNode" and ge: "height w rootNode \<le> offset"
  have "1 \<le> height w rootNode" by (simp add: height_sum[of w rootNode])
  with ge have nz: "offset \<noteq> 0" by simp
  from ex ge have "1 + sum_list (map (height w) (kids w rootNode)) \<le> offset"
    by (simp add: height_sum[of w rootNode])
  then show "findNodeWithOffset w rootNode offset = None"
    unfolding findNodeWithOffset_def
    by (rule findNodeWithOffsetInternal_beyond[OF nz])
qed


theorem offset_round_trip_witness:
  "map (\<lambda>r. nodeUri (underlying r)) (collectVisibleNodes example_world example_twice)
      = [None, Some ''X'', Some ''W'', Some ''Z'', Some ''W'']
   \<and> nodeUri (underlying (example_view ''W''))
      \<in> set (map (\<lambda>r. nodeUri (underlying r)) (collectVisibleNodes example_world example_twice))
   \<and> findNodeOffset example_world example_twice (example_view ''W'') = Some 2
   \<and> map_option (\<lambda>n. (nodeUri (viewNode n), level n))
        (findNodeWithOffset example_world example_twice 2) = Some (Some ''W'', 2)
   \<and> nodeUri (underlying (example_view ''Y''))
      \<notin> set (map (\<lambda>r. nodeUri (underlying r)) (collectVisibleNodes example_world example_expanded))
   \<and> findNodeOffset example_world example_expanded (example_view ''Y'') = None
   \<and> isExpanded example_expanded
   \<and> height example_world example_expanded \<le> 3
   \<and> findNodeWithOffset example_world example_expanded 3 = None"
proof -
  have r: "map (\<lambda>r. nodeUri (underlying r)) (collectVisibleNodes example_world example_twice)
      = [None, Some ''X'', Some ''W'', Some ''Z'', Some ''W'']"
    by code_simp
  have a: "nodeUri (underlying (example_view ''W''))
      \<in> set (map (\<lambda>r. nodeUri (underlying r)) (collectVisibleNodes example_world example_twice))"
    by code_simp
  have b: "nodeUri (underlying (example_view ''Y''))
      \<notin> set (map (\<lambda>r. nodeUri (underlying r)) (collectVisibleNodes example_world example_expanded))"
    by code_simp
  have c: "height example_world example_expanded \<le> 3"
    by code_simp
  have d: "findNodeOffset example_world example_twice (example_view ''W'') = Some 2"
    by code_simp
  have l: "map_option level (findNodeWithOffset example_world example_twice 2) = Some 2"
    by code_simp
  have e: "nodeUri (underlying (example_view ''W'')) = Some ''W''"
    by code_simp
  note t = offset_round_trip[of "example_view ''W''" example_world example_twice 3]
  from t[THEN conjunct1, rule_format, OF a] d e
  obtain node where n: "findNodeWithOffset example_world example_twice 2 = Some node"
    "nodeUri (viewNode node) = Some ''W''"
    by auto
  from n l have w: "map_option (\<lambda>n. (nodeUri (viewNode n), level n))
        (findNodeWithOffset example_world example_twice 2) = Some (Some ''W'', 2)"
    by simp
  note u = offset_round_trip[of "example_view ''Y''" example_world example_expanded 3]
  have y: "findNodeOffset example_world example_expanded (example_view ''Y'') = None"
    using u[THEN conjunct2, THEN conjunct1, rule_format, OF b] .
  have z: "findNodeWithOffset example_world example_expanded 3 = None"
    using u[THEN conjunct2, THEN conjunct2, rule_format, OF example_expanded_facts(2) c] .
  show ?thesis
    by (intro conjI) (rule r a d w b y example_expanded_facts(2) c z)+
qed





section \<open>TreeView, the reconciler\<close>

text \<open>
  The row offsets of the reconciler are JavaScript numbers that come from
  \<^verbatim>\<open>findNodeOffset(...) - 1\<close>, where the lookup may be \<^verbatim>\<open>undefined\<close>: arithmetic on
  \<^verbatim>\<open>undefined\<close> or \<^verbatim>\<open>NaN\<close> gives \<^verbatim>\<open>NaN\<close>, and a comparison with \<^verbatim>\<open>NaN\<close> is false.
\<close>

datatype jsval = Undefined | NaN | Num int

fun js_plus :: "jsval \<Rightarrow> int \<Rightarrow> jsval" where
  "js_plus (Num a) k = Num (a + k)"
| "js_plus _ k = NaN"

fun js_less :: "jsval \<Rightarrow> jsval \<Rightarrow> bool" where
  "js_less (Num a) (Num b) = (a < b)"
| "js_less _ _ = False"

definition js_of_offset :: "nat option \<Rightarrow> jsval" where
  "js_of_offset r = (case r of None \<Rightarrow> Undefined | Some n \<Rightarrow> Num (int n))"

text \<open>What can be thrown inside the queue callback: reading a property of \<^verbatim>\<open>undefined\<close>,
  and \<^verbatim>\<open>String.prototype.repeat\<close> with a negative count.\<close>

datatype error = TypeError | RangeError

text \<open>The promise \<^verbatim>\<open>eventQueue\<close>: settled so far without an error, or rejected.\<close>

datatype promise_state = Fulfilled | Rejected error

text \<open>
  The display surface is outside the program; what the reconciler does to it is the
  sequence of calls it makes (buffer, signs, cursor), kept in \<open>calls\<close>. What it reads back
  from the surface (the windows showing the buffer, their cursors) is \<open>surface\<close>.
\<close>

datatype call =
    Set_option string bool
  | Win_gotoid nat
  | JumpTo2 jsval jsval
  | Sign_unplace nat
  | Sign_place nat string jsval
  | Buffer_remove jsval jsval
  | Buffer_insert "string list" jsval
  | Win_execute_jumpTo2 nat int int
  | Set_cursor nat int

record window =
  win_id :: nat
  cursor :: int
  in_tabpage :: bool
  vim_lines :: "int \<times> int"

record surface =
  bufferWindows :: "window list"
  isVim :: bool

record TreeView =
  firstUpdate :: bool
  highlightPlaceId :: nat
  lineToSignId :: "jsval \<Rightarrow> nat option"
  eventQueue :: promise_state
  calls :: "call list"

text \<open>Indexing a JavaScript array: \<^verbatim>\<open>undefined\<close> out of range.\<close>

definition nth_opt :: "'a list \<Rightarrow> nat \<Rightarrow> 'a option" where
  "nth_opt xs i = (if i < length xs then Some (xs ! i) else None)"

text \<open>Lines 718-722 of \<^verbatim>\<open>handleModelUpdates\<close>: the update with the hidden root dropped.\<close>

definition hideRoot :: "TreeModelUpdate \<Rightarrow> NodeView option TreeModelUpdate_of" where
  "hideRoot ev0 =
     (let isRoot = (nodeUri (underlying (root ev0)) = None)
      in if isRoot
         then \<lparr>root = nth_opt (payload ev0) 1, length_upd = length_upd ev0 - 1,
               payload = drop 1 (payload ev0), focusEvent = focusEvent ev0\<rparr>
         else \<lparr>root = Some (root ev0), length_upd = length_upd ev0,
               payload = payload ev0, focusEvent = focusEvent ev0\<rparr>)"

text \<open>\<^verbatim>\<open>findNodeOffset\<close> as the callback calls it: with an \<^verbatim>\<open>undefined\<close> argument its first
  comparison reads \<^verbatim>\<open>nodeView.underlying\<close> and throws.\<close>

definition findNodeOffset_of :: "world \<Rightarrow> Node \<Rightarrow> NodeView option \<Rightarrow> error + nat option" where
  "findNodeOffset_of w rootNode nodeView =
     (case nodeView of None \<Rightarrow> Inl TypeError | Some v \<Rightarrow> Inr (findNodeOffset w rootNode v))"

text \<open>\<^verbatim>\<open>removeRows\<close>: the loop reads the sign of line \<^verbatim>\<open>i + 1\<close> and deletes the key
  \<^verbatim>\<open>i\<close>; the state of the loop is the unplace list and the map.\<close>

function removeRows_loop ::
  "jsval \<Rightarrow> jsval \<Rightarrow> nat list \<times> (jsval \<Rightarrow> nat option) \<Rightarrow> nat list \<times> (jsval \<Rightarrow> nat option)" where
  "removeRows_loop i to st =
     (if js_less i to
      then (case snd st (js_plus i 1) of
              None \<Rightarrow> removeRows_loop (js_plus i 1) to st
            | Some mbPlaceId \<Rightarrow>
                removeRows_loop (js_plus i 1) to (fst st @ [mbPlaceId], (snd st)(i := None)))
      else st)"
  by pat_completeness auto
termination
proof (relation "measure (\<lambda>(i, to, st). case (i, to) of (Num a, Num b) \<Rightarrow> nat (b - a) | _ \<Rightarrow> 0)",
    goal_cases)
  case 1
  show ?case by simp
next
  case (2 i to st)
  then show ?case by (cases i; cases to) auto
next
  case (3 i to st x2)
  then show ?case by (cases i; cases to) auto
qed

declare removeRows_loop.simps [simp del]

definition removeRows :: "jsval \<Rightarrow> jsval \<Rightarrow> TreeView \<Rightarrow> TreeView" where
  "removeRows from to tv =
     (let (unplaceList, m) = removeRows_loop from to ([], lineToSignId tv)
      in tv\<lparr>lineToSignId := m,
             calls := calls tv @ map Sign_unplace unplaceList @ [Buffer_remove from to]\<rparr>)"

text \<open>\<^verbatim>\<open>makeRows\<close>; the two glyphs are given by their UTF-8 bytes.\<close>

definition closed_glyph :: string where
  "closed_glyph = [CHR 0xE2, CHR 0x96, CHR 0xB8]"

definition open_glyph :: string where
  "open_glyph = [CHR 0xE2, CHR 0x96, CHR 0xBE]"

fun makeRows :: "NodeView list \<Rightarrow> error + string list" where
  "makeRows [] = Inr []"
| "makeRows (child # nodes) =
     (if view_level child = 0 then Inl RangeError
      else case makeRows nodes of
             Inl e \<Rightarrow> Inl e
           | Inr rs \<Rightarrow>
               Inr ((concat (replicate (view_level child - 1) ''  '')
                     @ (if view_expandable child
                        then (if view_expanded child then open_glyph else closed_glyph) @ '' ''
                        else ''  '')
                     @ label (underlying child)) # rs))"

text \<open>\<^verbatim>\<open>insertRows\<close>: the \<^verbatim>\<open>switch\<close> on the icon, the callback of \<^verbatim>\<open>nodes.map\<close> on a node
  and its index, and the whole.\<close>

definition highlightSchema :: "NodeView \<Rightarrow> string option" where
  "highlightSchema node =
     (if icon (underlying node) = Some ''trait'' then Some ''TvpTrait''
      else if icon (underlying node) = Some ''class'' then Some ''TvpClass''
      else if icon (underlying node) = Some ''object'' then Some ''TvpObject''
      else if icon (underlying node) = Some ''method'' then Some ''TvpMethod''
      else if icon (underlying node) = Some ''val'' then Some ''TvpVal''
      else None)"

definition placeSign :: "jsval \<Rightarrow> TreeView \<Rightarrow> NodeView \<times> nat \<Rightarrow> TreeView" where
  "placeSign offset tv p =
     (case highlightSchema (fst p) of
        None \<Rightarrow> tv
      | Some schema \<Rightarrow>
          let placeId = highlightPlaceId tv;
              line = js_plus (js_plus offset (int (snd p))) 1
          in tv\<lparr>highlightPlaceId := placeId + 1,
                 lineToSignId := (lineToSignId tv)(line \<mapsto> placeId),
                 calls := calls tv @ [Sign_place placeId schema line]\<rparr>)"

definition insertRows :: "jsval \<Rightarrow> NodeView list \<Rightarrow> TreeView \<Rightarrow> error + TreeView" where
  "insertRows offset nodes tv =
     (case makeRows nodes of
        Inl e \<Rightarrow> Inl e
      | Inr lines \<Rightarrow>
          Inr (foldl (placeSign offset)
                 (tv\<lparr>calls := calls tv @ [Buffer_insert lines offset]\<rparr>)
                 (zip nodes [0..<length nodes])))"

text \<open>The body of the queue callback: the state afterwards and the error it rejects with,
  if any. \<open>snapshot\<close> and \<open>restore\<close> are the two \<^verbatim>\<open>sequence\<close> callbacks on the windows.\<close>

definition snapshot :: "surface \<Rightarrow> window \<Rightarrow> nat \<times> int \<times> int option" where
  "snapshot env window =
     (if isVim env \<and> in_tabpage window
      then (win_id window, fst (vim_lines window), Some (snd (vim_lines window)))
      else (win_id window, cursor window, None))"

definition restore :: "nat \<times> int \<times> int option \<Rightarrow> call" where
  "restore s =
     (case s of (window, curLine, topLine) \<Rightarrow>
        (case topLine of
           Some t \<Rightarrow> Win_execute_jumpTo2 window t curLine
         | None \<Rightarrow> Set_cursor window curLine))"

definition applyUpdate ::
  "world \<Rightarrow> Node \<Rightarrow> surface \<Rightarrow> NodeView option TreeModelUpdate_of \<Rightarrow> TreeView
     \<Rightarrow> TreeView \<times> error option" where
  "applyUpdate w rootNode env ev tv =
     (case findNodeOffset_of w rootNode (root ev) of
        Inl e \<Rightarrow> (tv, Some e)
      | Inr found \<Rightarrow>
          let offset = js_plus (js_of_offset found) (- 1)
          in if offset = Undefined then (tv, None)
             else if focusEvent ev
             then (tv\<lparr>calls := calls tv @
                      concat (map (\<lambda>w. if in_tabpage w
                                        then [Win_gotoid (win_id w), JumpTo2 (Num 1) (js_plus offset 1)]
                                        else [])
                                (bufferWindows env))\<rparr>, None)
             else
               let tv1 = tv\<lparr>calls := calls tv @
                             [Set_option ''readonly'' False, Set_option ''modifiable'' True]\<rparr>;
                   offsets = map (snapshot env) (bufferWindows env);
                   tv2 = removeRows offset (js_plus offset (length_upd ev)) tv1;
                   finish = (\<lambda>t. t\<lparr>calls := calls t @
                             [Set_option ''modifiable'' False, Set_option ''readonly'' True]\<rparr>)
               in case insertRows offset (payload ev) tv2 of
                    Inl e \<Rightarrow> (finish tv2, Some e)
                  | Inr tv3 \<Rightarrow>
                      let tv4 = tv3\<lparr>calls := calls tv3 @ map restore offsets\<rparr>;
                          tv5 = (if firstUpdate tv4
                                 then tv4\<lparr>firstUpdate := False,
                                          calls := calls tv4 @
                                            [Buffer_remove (Num (int (length (payload ev))))
                                               (Num (int (length (payload ev)) + 1))]\<rparr>
                                 else tv4)
                      in (finish tv5, None))"

text \<open>
  \<^verbatim>\<open>handleModelUpdates\<close>: \<^verbatim>\<open>this.eventQueue = this.eventQueue.then(callback)\<close>. On a
  rejected promise \<^verbatim>\<open>then\<close> does not run the callback and the new promise is rejected
  too; there is no \<^verbatim>\<open>catch\<close>. The tree and the surface are those the callback finds.
\<close>

definition handleModelUpdates ::
  "world \<Rightarrow> Node \<Rightarrow> surface \<Rightarrow> TreeView \<Rightarrow> TreeModelUpdate \<Rightarrow> TreeView" where
  "handleModelUpdates w rootNode env tv ev0 =
     (let ev = hideRoot ev0
      in case eventQueue tv of
           Rejected e \<Rightarrow> tv
         | Fulfilled \<Rightarrow>
             (case applyUpdate w rootNode env ev tv of
                (tv', None) \<Rightarrow> tv'
              | (tv', Some e) \<Rightarrow> tv'\<lparr>eventQueue := Rejected e\<rparr>))"

text \<open>The updates of a queue in the order they were passed to \<^verbatim>\<open>handleModelUpdates\<close>, each
  with the tree and the surface its callback finds.\<close>

definition processQueue ::
  "TreeView \<Rightarrow> (world \<times> Node \<times> surface \<times> TreeModelUpdate) list \<Rightarrow> TreeView" where
  "processQueue tv items =
     foldl (\<lambda>t item. case item of (w, rootNode, env, ev0) \<Rightarrow> handleModelUpdates w rootNode env t ev0)
       tv items"

text \<open>The members of a \<^verbatim>\<open>TreeView\<close> as its declaration initialises them.\<close>

definition new_TreeView :: TreeView where
  "new_TreeView = \<lparr>firstUpdate = True, highlightPlaceId = 0, lineToSignId = (\<lambda>k. None),
     eventQueue = Fulfilled, calls = []\<rparr>"

subsection \<open>Example updates\<close>

definition example_surface :: surface where
  "example_surface = \<lparr>bufferWindows = [\<lparr>win_id = 1000, cursor = 1, in_tabpage = True, vim_lines = (1, 1)\<rparr>],
     isVim = False\<rparr>"


definition stale_update :: TreeModelUpdate where
  "stale_update = \<lparr>root = example_view ''Gone'', length_upd = 1,
     payload = [example_view ''Gone''], focusEvent = False\<rparr>"

definition stale_navigation :: TreeModelUpdate where
  "stale_navigation = \<lparr>root = example_view ''Gone'', length_upd = 1, payload = [],
     focusEvent = True\<rparr>"

definition x_navigation :: TreeModelUpdate where
  "x_navigation = \<lparr>root = example_view ''X'', length_upd = 1, payload = [],
     focusEvent = True\<rparr>"

definition root_navigation :: TreeModelUpdate where
  "root_navigation = \<lparr>root = makeView example_expanded, length_upd = 1, payload = [],
     focusEvent = True\<rparr>"

definition class_row :: NodeView where
  "class_row = \<lparr>underlying = (descr ''X'')\<lparr>icon := Some ''class''\<rparr>, view_level = 1,
     view_expandable = True, view_expanded = False\<rparr>"

section \<open>Claims about the reconciler\<close>

text \<open>
  C2 fails on the code: the anchor \<open>Gone\<close> is not in the projection and
  \<^verbatim>\<open>findNodeOffset\<close> returns undefined, but the guard tests \<^verbatim>\<open>undefined - 1\<close>, which is
  \<^verbatim>\<open>NaN\<close> and never \<^verbatim>\<open>=== undefined\<close>. The content update goes on to remove and insert
  rows at \<^verbatim>\<open>NaN\<close> and to set the cursor; the navigation update moves the cursor.
\<close>

theorem absent_anchor_not_dropped:
  "findNodeOffset example_world example_expanded (root stale_update) = None
   \<and> calls (handleModelUpdates example_world example_expanded example_surface new_TreeView
        stale_update)
       = [Set_option ''readonly'' False, Set_option ''modifiable'' True,
          Buffer_remove NaN NaN,
          Buffer_insert [closed_glyph @ '' Gone''] NaN,
          Set_cursor 1000 1,
          Buffer_remove (Num 1) (Num 2),
          Set_option ''modifiable'' False, Set_option ''readonly'' True]
   \<and> findNodeOffset example_world example_expanded (root stale_navigation) = None
   \<and> calls (handleModelUpdates example_world example_expanded example_surface new_TreeView
        stale_navigation)
       = [Win_gotoid 1000, JumpTo2 (Num 1) NaN]"
  by code_simp

text \<open>One decorated row inserted at offset 0, then removed.\<close>

definition decorated_then_removed :: TreeView where
  "decorated_then_removed =
     removeRows (Num 0) (Num 1)
       (case insertRows (Num 0) [class_row] new_TreeView of Inr tv \<Rightarrow> tv | Inl e \<Rightarrow> new_TreeView)"

text \<open>
  C9 fails on the code: removing the decorated row releases its handle 0, but
  \<^verbatim>\<open>lineToSignId.delete(i)\<close> deletes the key of the line before, so handle 0 stays in the
  map at line 1. When an undecorated row is then inserted there and removed, the handle is
  released once more, for a row that carried no decoration.
\<close>

theorem removeRows_leaves_released_handle:
  "calls decorated_then_removed
     = [Buffer_insert [closed_glyph @ '' X''] (Num 0), Sign_place 0 ''TvpClass'' (Num 1),
        Sign_unplace 0, Buffer_remove (Num 0) (Num 1)]
   \<and> lineToSignId decorated_then_removed (Num 1) = Some 0
   \<and> calls (removeRows (Num 0) (Num 1)
        (case insertRows (Num 0) [example_view ''W''] decorated_then_removed of
           Inr tv \<Rightarrow> tv | Inl e \<Rightarrow> decorated_then_removed))
     = calls decorated_then_removed
       @ [Buffer_insert [closed_glyph @ '' W''] (Num 0), Sign_unplace 0,
          Buffer_remove (Num 0) (Num 1)]"
  by code_simp



lemma handleModelUpdates_rejected:
  "eventQueue tv = Rejected e \<Longrightarrow> handleModelUpdates w r env tv ev0 = tv"
  by (simp add: handleModelUpdates_def)

lemma processQueue_rejected:
  "eventQueue tv = Rejected e \<Longrightarrow> processQueue tv items = tv"
  unfolding processQueue_def
  by (induction items) (auto simp: handleModelUpdates_rejected)

text \<open>
  C3, as stated, fails: the navigation update anchored at the root (as \<^verbatim>\<open>revealDocument\<close>
  fires it for an empty chain) rejects with a TypeError; the navigation to \<open>X\<close> queued after
  it makes no call, though alone it would move the cursor.
\<close>

theorem rejected_update_blocks_queue_counterexample:
  "eventQueue (handleModelUpdates example_world example_expanded example_surface new_TreeView
       root_navigation) = Rejected TypeError
   \<and> calls (processQueue new_TreeView
        [(example_world, example_expanded, example_surface, root_navigation),
         (example_world, example_expanded, example_surface, x_navigation)]) = []
   \<and> calls (processQueue new_TreeView
        [(example_world, example_expanded, example_surface, x_navigation)])
       = [Win_gotoid 1000, JumpTo2 (Num 1) (Num 1)]"
  by code_simp

text \<open>
  C3 (amended). The queue applies the updates one at a time in order as long as none fails:
  an update whose application does not reject leaves the queue fulfilled with that
  application's state. When the application of an update rejects, the queue promise is
  rejected with its error, and no update queued afterwards is processed: the state stays
  as the failed update left it.
\<close>

theorem rejected_update_blocks_queue:
  "eventQueue tv = Fulfilled \<Longrightarrow>
     (snd (applyUpdate w r env (hideRoot ev0) tv) = None \<longrightarrow>
        handleModelUpdates w r env tv ev0 = fst (applyUpdate w r env (hideRoot ev0) tv))
     \<and> (\<forall>e. snd (applyUpdate w r env (hideRoot ev0) tv) = Some e \<longrightarrow>
        eventQueue (handleModelUpdates w r env tv ev0) = Rejected e
        \<and> processQueue (handleModelUpdates w r env tv ev0) items
            = handleModelUpdates w r env tv ev0)"
proof (intro conjI impI allI)
  assume q: "eventQueue tv = Fulfilled" and ok: "snd (applyUpdate w r env (hideRoot ev0) tv) = None"
  then show "handleModelUpdates w r env tv ev0 = fst (applyUpdate w r env (hideRoot ev0) tv)"
    by (cases "applyUpdate w r env (hideRoot ev0) tv") (simp add: handleModelUpdates_def Let_def)
next
  fix e
  assume q: "eventQueue tv = Fulfilled"
    and bad: "snd (applyUpdate w r env (hideRoot ev0) tv) = Some e"
  then show rej: "eventQueue (handleModelUpdates w r env tv ev0) = Rejected e"
    by (cases "applyUpdate w r env (hideRoot ev0) tv") (simp add: handleModelUpdates_def Let_def)
  then show "processQueue (handleModelUpdates w r env tv ev0) items
            = handleModelUpdates w r env tv ev0"
    by (rule processQueue_rejected)
qed

theorem rejected_update_blocks_queue_witness:
  "eventQueue new_TreeView = Fulfilled
   \<and> snd (applyUpdate example_world example_expanded example_surface (hideRoot root_navigation)
        new_TreeView) = Some TypeError
   \<and> eventQueue (handleModelUpdates example_world example_expanded example_surface new_TreeView
        root_navigation) = Rejected TypeError
   \<and> processQueue (handleModelUpdates example_world example_expanded example_surface new_TreeView
        root_navigation) [(example_world, example_expanded, example_surface, x_navigation)]
       = handleModelUpdates example_world example_expanded example_surface new_TreeView
        root_navigation"
proof -
  have q: "eventQueue new_TreeView = Fulfilled"
    by (simp add: new_TreeView_def)
  have bad: "snd (applyUpdate example_world example_expanded example_surface
      (hideRoot root_navigation) new_TreeView) = Some TypeError"
    by code_simp
  show ?thesis
    using rejected_update_blocks_queue[OF q, of example_world example_expanded example_surface
        root_navigation "[(example_world, example_expanded, example_surface, x_navigation)]"]
      q bad
    by simp
qed

text \<open>The update the first \<^verbatim>\<open>rootNode.expand()\<close> fires: anchored at the root, with the rows
  of the root, \<open>X\<close> and \<open>W\<close>.\<close>

definition root_expand_update :: TreeModelUpdate where
  "root_expand_update = hd (fired (expand example_world example_root))"

text \<open>
  C10. An update anchored at the hidden root (its \<^verbatim>\<open>nodeUri\<close> is undefined) is rewritten
  to anchor \<^verbatim>\<open>payload[1]\<close>, length minus one and the payload without its first row: the
  new anchor is the second row of the original payload when there are at least two rows.
  When the payload has fewer than two rows the new anchor is undefined, the offset lookup is
  called with it and throws, and the queue is rejected with that error.
\<close>

theorem hidden_root_rewrite:
  "nodeUri (underlying (root ev0)) = None \<Longrightarrow>
     hideRoot ev0 =
       \<lparr>root = (if 2 \<le> length (payload ev0) then Some (payload ev0 ! 1) else None),
        length_upd = length_upd ev0 - 1,
        payload = drop 1 (payload ev0), focusEvent = focusEvent ev0\<rparr>
     \<and> (2 \<le> length (payload ev0) \<longrightarrow> root (hideRoot ev0) = Some (payload ev0 ! 1))
     \<and> (length (payload ev0) < 2 \<longrightarrow>
          root (hideRoot ev0) = None
          \<and> findNodeOffset_of w r (root (hideRoot ev0)) = Inl TypeError
          \<and> (eventQueue tv = Fulfilled \<longrightarrow>
               handleModelUpdates w r env tv ev0 = tv\<lparr>eventQueue := Rejected TypeError\<rparr>))"
proof (intro conjI impI)
  assume isRoot: "nodeUri (underlying (root ev0)) = None"
  have two: "(1 < length (payload ev0)) = (2 \<le> length (payload ev0))"
    by auto
  show rewrite: "hideRoot ev0 =
       \<lparr>root = (if 2 \<le> length (payload ev0) then Some (payload ev0 ! 1) else None),
        length_upd = length_upd ev0 - 1,
        payload = drop 1 (payload ev0), focusEvent = focusEvent ev0\<rparr>"
    using isRoot by (simp add: hideRoot_def nth_opt_def two)
  {
    assume "2 \<le> length (payload ev0)"
    then show "root (hideRoot ev0) = Some (payload ev0 ! 1)"
      by (simp add: rewrite)
  }
  {
    assume short: "length (payload ev0) < 2"
    then show none: "root (hideRoot ev0) = None"
      by (simp add: rewrite)
    then show lookup: "findNodeOffset_of w r (root (hideRoot ev0)) = Inl TypeError"
      by (simp add: findNodeOffset_of_def)
    {
      assume "eventQueue tv = Fulfilled"
      then show "handleModelUpdates w r env tv ev0 = tv\<lparr>eventQueue := Rejected TypeError\<rparr>"
        using lookup by (simp add: handleModelUpdates_def applyUpdate_def Let_def)
    }
  }
qed

theorem hidden_root_rewrite_witness:
  "nodeUri (underlying (root root_expand_update)) = None
   \<and> 2 \<le> length (payload root_expand_update)
   \<and> map (\<lambda>v. nodeUri (underlying v)) (payload root_expand_update)
       = [None, Some ''X'', Some ''W'']
   \<and> map_option (\<lambda>v. nodeUri (underlying v)) (root (hideRoot root_expand_update))
       = Some (Some ''X'')
   \<and> length_upd (hideRoot root_expand_update) = 0
   \<and> map (\<lambda>v. nodeUri (underlying v)) (payload (hideRoot root_expand_update))
       = [Some ''X'', Some ''W'']
   \<and> nodeUri (underlying (root root_navigation)) = None
   \<and> length (payload root_navigation) < 2
   \<and> root (hideRoot root_navigation) = None
   \<and> length_upd (hideRoot root_navigation) = 0
   \<and> eventQueue new_TreeView = Fulfilled
   \<and> eventQueue (handleModelUpdates example_world example_expanded example_surface new_TreeView
        root_navigation) = Rejected TypeError"
proof -
  have a: "nodeUri (underlying (root root_navigation)) = None"
    by code_simp
  have b: "length (payload root_navigation) < 2" "length_upd root_navigation = 1"
    by (simp_all add: root_navigation_def)
  have q: "eventQueue new_TreeView = Fulfilled"
    by (simp add: new_TreeView_def)
  have a': "nodeUri (underlying (root root_expand_update)) = None"
    by code_simp
  have p: "map (\<lambda>v. nodeUri (underlying v)) (payload root_expand_update)
      = [None, Some ''X'', Some ''W'']"
    by code_simp
  have l: "length_upd root_expand_update = 1"
    by code_simp
  from p have len: "length (payload root_expand_update) = 3"
    by (metis length_map length_Cons list.size(3) numeral_3_eq_3)
  from p len have second: "nodeUri (underlying (payload root_expand_update ! 1)) = Some ''X''"
    by (metis nth_map nth_Cons_0 nth_Cons_Suc One_nat_def one_less_numeral_iff semiring_norm(77))
  have rest: "map (\<lambda>v. nodeUri (underlying v)) (drop 1 (payload root_expand_update))
      = [Some ''X'', Some ''W'']"
    using p by (simp add: drop_map[symmetric])
  note t = hidden_root_rewrite[OF a', of example_world example_expanded new_TreeView
      example_surface]
  note u = hidden_root_rewrite[OF a, of example_world example_expanded new_TreeView
      example_surface]
  show ?thesis
    using t u a a' b q p l len second rest
    by simp
qed


end
